theory Spec2Isabelle
  imports Main
begin

section \<open>Python values used by voice.py\<close>

text \<open>
  A Python \<open>str\<close> is modelled as a \<open>string\<close>; one \<open>char\<close> stands for one code point
  below 256. Exceptions are values of the type \<open>error\<close>; a function that can raise
  returns \<open>error + 'a\<close>, with \<open>Inl\<close> for the raised exception.
\<close>

subsection \<open>str.split(), the operator in, str.startswith\<close>

text \<open>
  \<open>str.isspace\<close> on the code points below 256: tab, line feed, vertical tab, form feed,
  carriage return, the four separators 28 to 31, space, next line (133) and the
  no-break space (160).
\<close>

definition isspace :: "char \<Rightarrow> bool" where
  "isspace c = (c \<in> {CHR 0x09, CHR 0x0A, CHR 0x0B, CHR 0x0C, CHR 0x0D,
                      CHR 0x1C, CHR 0x1D, CHR 0x1E, CHR 0x1F, CHR 0x20,
                      CHR 0x85, CHR 0xA0})"

text \<open>
  \<open>pattern.split()\<close> with no separator: runs of whitespace separate the words and no
  empty word is produced. \<open>split_scan w s\<close> scans \<open>s\<close> with the word \<open>w\<close> read so far.
\<close>

fun split_scan :: "string \<Rightarrow> string \<Rightarrow> string list" where
  "split_scan w [] = (if w = [] then [] else [w])"
| "split_scan w (c # cs) =
     (if isspace c then (if w = [] then split_scan [] cs else w # split_scan [] cs)
      else split_scan (w @ [c]) cs)"

definition str_split :: "string \<Rightarrow> string list" where
  "str_split s = split_scan [] s"

text \<open>\<open>command.startswith(pattern)\<close>.\<close>

fun startswith :: "string \<Rightarrow> string \<Rightarrow> bool" where
  "startswith s [] = True"
| "startswith [] (p # ps) = False"
| "startswith (c # cs) (p # ps) = (c = p \<and> startswith cs ps)"

text \<open>\<open>word in command\<close> on two strings: \<open>contains command word\<close>.\<close>

fun contains :: "string \<Rightarrow> string \<Rightarrow> bool" where
  "contains [] w = (w = [])"
| "contains (c # cs) w = (startswith (c # cs) w \<or> contains cs w)"

subsection \<open>Exceptions\<close>

datatype json =
    JNull
  | JBool bool
  | JNumber int
  | JString string
  | JArray "json list"
  | JObject "(string \<times> json) list"

text \<open>
  The exceptions the modelled code can raise. \<open>KeyError\<close> carries the missing key.
  \<open>re_error\<close> is \<open>re.error\<close>, raised when a pattern does not compile. \<open>NotModelled\<close> is
  not a Python exception: it marks an input on which a model makes no statement
  (a replayed argument that is not a string, a pattern that \<open>literal_search\<close> does not
  cover).
\<close>

datatype error =
    KeyError json
  | TypeError
  | re_error
  | FileNotFoundError
  | NotModelled

subsection \<open>re.search\<close>

text \<open>
  The module \<open>re\<close> is Python's library, not code of this repository, so the matcher and
  the dispatcher take \<open>re.search\<close> as a parameter \<open>re_search\<close>: a function of the pattern
  and the string that returns the exception raised (\<open>re_error\<close> for a pattern that does
  not compile) or the truth value of the result (a match object is true, \<open>None\<close> is
  false). Every theorem that has \<open>re_search\<close> free holds for every such function.
\<close>

type_synonym search = "string \<Rightarrow> string \<Rightarrow> error + bool"

text \<open>
  \<open>literal_search\<close> is the value of the parameter at which concrete registries are
  evaluated. It is \<open>re.search\<close> on the patterns built from ordinary characters and
  plain groups \<open>( ... )\<close>: such a pattern compiles iff its parentheses balance, and it
  then matches exactly the text obtained by deleting the parentheses. On a pattern
  with any other special character it answers \<open>NotModelled\<close>.
\<close>

definition special :: "char \<Rightarrow> bool" where
  "special c = (c \<in> {CHR ''.'', CHR ''^'', CHR ''$'', CHR ''*'', CHR ''+'', CHR ''?'',
                      CHR ''{'', CHR ''}'', CHR ''['', CHR '']'', CHR 0x5C, CHR ''|'',
                      CHR ''('', CHR '')''})"

text \<open>
  \<open>literal_compile_at d p\<close> reads the rest \<open>p\<close> of a pattern inside \<open>d\<close> open groups and
  returns the literal text the pattern matches.
\<close>

fun literal_compile_at :: "nat \<Rightarrow> string \<Rightarrow> error + string" where
  "literal_compile_at d [] = (if d = 0 then Inr [] else Inl re_error)"
| "literal_compile_at d (c # cs) =
     (if c = CHR ''('' then
        (case cs of
           q # _ \<Rightarrow> if q = CHR ''?'' then Inl NotModelled else literal_compile_at (Suc d) cs
         | [] \<Rightarrow> literal_compile_at (Suc d) cs)
      else if c = CHR '')'' then
        (case d of 0 \<Rightarrow> Inl re_error | Suc d' \<Rightarrow> literal_compile_at d' cs)
      else if special c then Inl NotModelled
      else (case literal_compile_at d cs of Inl e \<Rightarrow> Inl e | Inr t \<Rightarrow> Inr (c # t)))"

definition literal_compile :: "string \<Rightarrow> error + string" where
  "literal_compile pattern = literal_compile_at 0 pattern"

definition literal_search :: search where
  "literal_search pattern command =
     (case literal_compile pattern of Inl e \<Rightarrow> Inl e | Inr t \<Rightarrow> Inr (contains command t))"

section \<open>The matcher\<close>

datatype MatchType = ALL_KEYWORDS | DYNAMIC | STARTS_WITH | STATIC | SUBSTRING

text \<open>
  \<open>MatchAndPerformMixin.is_match\<close>, branch by branch. In the first and the third
  condition \<open>and\<close> evaluates its right operand only when the match type is the one
  tested, and a condition that is false falls to the next \<open>elif\<close>.
\<close>

definition is_match :: "search \<Rightarrow> string \<Rightarrow> string \<Rightarrow> MatchType \<Rightarrow> error + bool" where
  "is_match re_search command pattern match_type =
     (case (if match_type = SUBSTRING then re_search pattern command else Inr False) of
        Inl e \<Rightarrow> Inl e
      | Inr found \<Rightarrow>
          if found then Inr True
          else if match_type = ALL_KEYWORDS then
            Inr (list_all (\<lambda>word. contains command word) (str_split pattern))
          else if match_type = STARTS_WITH \<and> startswith command pattern then Inr True
          else Inr False)"

section \<open>Dictionaries, functions, instances\<close>

text \<open>
  A Python \<open>dict\<close> is an association list in insertion order, which is the order
  \<open>items()\<close> iterates in. \<open>d[k] = v\<close> replaces the value of a key that is present, in
  place, and appends a new key at the end; \<open>d[k]\<close> is \<open>map_of d k\<close>, a \<open>KeyError\<close> where
  that is \<open>None\<close>.
\<close>

fun dict_set :: "'k \<Rightarrow> 'v \<Rightarrow> ('k \<times> 'v) list \<Rightarrow> ('k \<times> 'v) list" where
  "dict_set k v [] = [(k, v)]"
| "dict_set k v ((k', v') # d) =
     (if k = k' then (k, v) # d else (k', v') # dict_set k v d)"

type_synonym kwargs = "(string \<times> string) list"

text \<open>
  A handler is a Python function \<open>def name(self, p1, ..., pn)\<close> whose body builds a
  string from its parameters: its \<open>__name__\<close>, the names of the parameters after
  \<open>self\<close>, and the body as a function of the parameter values in that order.
\<close>

record func =
  func_name :: string
  params :: "string list"
  body :: "string list \<Rightarrow> string"

text \<open>
  The call \<open>f(self, **kw)\<close>: a keyword that is no parameter, or a parameter with no
  keyword, is a \<open>TypeError\<close>, raised before the body runs.
\<close>

fun bind_args :: "string list \<Rightarrow> kwargs \<Rightarrow> string list option" where
  "bind_args [] kw = Some []"
| "bind_args (p # ps) kw =
     (case map_of kw p of
        None \<Rightarrow> None
      | Some v \<Rightarrow> (case bind_args ps kw of None \<Rightarrow> None | Some vs \<Rightarrow> Some (v # vs)))"

definition call :: "func \<Rightarrow> kwargs \<Rightarrow> error + string" where
  "call f kw =
     (if list_all (\<lambda>k. k \<in> set (params f)) (map fst kw) then
        (case bind_args (params f) kw of
           None \<Rightarrow> Inl TypeError
         | Some vs \<Rightarrow> Inr (body f vs))
      else Inl TypeError)"

text \<open>\<open>datetime.datetime\<close>, as \<open>datetime.now()\<close> returns it (no time zone).\<close>

record datetime =
  year :: nat
  month :: nat
  day :: nat
  hour :: nat
  minute :: nat
  second :: nat
  microsecond :: nat

definition digit :: "nat \<Rightarrow> char" where
  "digit n = char_of (48 + n mod 10)"

text \<open>
  \<open>str(timestamp)\<close>, which \<open>json.dump(..., default=str)\<close> applies to the datetime:
  \<open>YYYY-MM-DD HH:MM:SS\<close>, followed by \<open>.ffffff\<close> when the microseconds are not zero.
\<close>

definition datetime_str :: "datetime \<Rightarrow> string" where
  "datetime_str t =
     [digit (year t div 1000), digit (year t div 100), digit (year t div 10), digit (year t),
      CHR ''-'', digit (month t div 10), digit (month t),
      CHR ''-'', digit (day t div 10), digit (day t),
      CHR '' '', digit (hour t div 10), digit (hour t),
      CHR '':'', digit (minute t div 10), digit (minute t),
      CHR '':'', digit (second t div 10), digit (second t)]
     @ (if microsecond t = 0 then []
        else [CHR ''.'', digit (microsecond t div 100000), digit (microsecond t div 10000),
              digit (microsecond t div 1000), digit (microsecond t div 100),
              digit (microsecond t div 10), digit (microsecond t)])"

record CommandHistory =
  action :: string
  timestamp :: datetime
  args :: kwargs

type_synonym registry = "(string \<times> (func \<times> MatchType)) list"

type_synonym addr = nat

datatype class_name = VoiceCommandMixin | TestControl | PaintAppControl

text \<open>
  The classes that inherit \<open>VoiceCommandMixin.__init__\<close> are the values of \<open>class_name\<close>.
  An instance of \<open>VoiceCommandMixin\<close> or of a subclass. \<open>action_registry\<close> holds a
  reference to a dict, not a dict. \<open>invoked\<close> is not an attribute of the source: it
  logs, in order, each handler body that ran on this instance, as the function's
  name and the keyword arguments of the call.
\<close>

record mixin =
  cls :: class_name
  action_registry :: addr
  history :: "CommandHistory list"
  invoked :: "(string \<times> kwargs) list"

text \<open>
  The state outside the instances: the dict objects by address, and the files by
  name, a file being the JSON value that \<open>json.load\<close> reads from it.
\<close>

record world =
  dicts :: "addr \<Rightarrow> registry"
  files :: "string \<Rightarrow> json option"

section \<open>Registration\<close>

text \<open>The address of the module's dict \<open>_action_registry\<close>.\<close>

definition module_action_registry :: addr where
  "module_action_registry = 0"

text \<open>
  \<open>register_action(pattern, match_type)(func)\<close>: the decorator stores the pair under
  the pattern in the module's dict. \<open>register_action_default\<close> is the call that
  leaves \<open>match_type\<close> out.
\<close>

definition register_action :: "string \<Rightarrow> MatchType \<Rightarrow> func \<Rightarrow> world \<Rightarrow> world" where
  "register_action pattern match_type f w =
     w\<lparr>dicts := (dicts w)(module_action_registry :=
          dict_set pattern (f, match_type) (dicts w module_action_registry))\<rparr>"

definition register_action_default :: "string \<Rightarrow> func \<Rightarrow> world \<Rightarrow> world" where
  "register_action_default pattern f w = register_action pattern STATIC f w"

text \<open>
  The decorators of a module run top to bottom: \<open>register_all\<close> runs a list of
  decorations \<open>(pattern, match_type, func)\<close> in order.
\<close>

fun register_all :: "(string \<times> MatchType \<times> func) list \<Rightarrow> world \<Rightarrow> world" where
  "register_all [] w = w"
| "register_all ((pattern, match_type, f) # decorations) w =
     register_all decorations (register_action pattern match_type f w)"

section \<open>Dispatch\<close>

text \<open>
  A call of a handler on \<open>self\<close>: the result of \<open>call\<close>, and the instance with the call
  logged when the body ran.
\<close>

definition call_handler :: "func \<Rightarrow> mixin \<Rightarrow> kwargs \<Rightarrow> (error + string) \<times> mixin" where
  "call_handler f self kw =
     (case call f kw of
        Inl e \<Rightarrow> (Inl e, self)
      | Inr r \<Rightarrow> (Inr r, self\<lparr>invoked := invoked self @ [(func_name f, kw)]\<rparr>))"

text \<open>
  \<open>MatchAndPerformMixin.perform_action\<close>. \<open>perform_items\<close> is the loop over
  \<open>self.action_registry.items()\<close>: the first entry whose matcher returns true decides,
  and its handler \<open>act\<close> (the source's \<open>action\<close>) is called as \<open>action(self)\<close>, with no
  argument.
\<close>

fun perform_items ::
  "search \<Rightarrow> registry \<Rightarrow> mixin \<Rightarrow> string \<Rightarrow> (error + string) \<times> mixin" where
  "perform_items re_search [] self command = (Inr ''Command not recognized'', self)"
| "perform_items re_search ((pattern, (act, match_type)) # items) self command =
     (case is_match re_search command pattern match_type of
        Inl e \<Rightarrow> (Inl e, self)
      | Inr matched \<Rightarrow>
          if matched then call_handler act self []
          else perform_items re_search items self command)"

definition perform_action ::
  "search \<Rightarrow> world \<Rightarrow> mixin \<Rightarrow> string \<Rightarrow> (error + string) \<times> mixin" where
  "perform_action re_search w self command =
     perform_items re_search (dicts w (action_registry self)) self command"

section \<open>History\<close>

text \<open>\<open>VoiceCommandMixin.__init__\<close>, which every subclass inherits.\<close>

definition init :: "class_name \<Rightarrow> mixin" where
  "init c = \<lparr>cls = c, action_registry = module_action_registry, history = [], invoked = []\<rparr>"

text \<open>\<open>add_to_history\<close>; \<open>now\<close> is the value \<open>datetime.datetime.now()\<close> returns.\<close>

definition add_to_history :: "mixin \<Rightarrow> string \<Rightarrow> kwargs \<Rightarrow> datetime \<Rightarrow> mixin" where
  "add_to_history self act kw now =
     self\<lparr>history := history self @ [\<lparr>action = act, timestamp = now, args = kw\<rparr>]\<rparr>"

text \<open>
  \<open>asdict(command)\<close> as \<open>json.dump\<close> writes it with \<open>default=str\<close>: the datetime is
  written as its \<open>str\<close>, the captured strings as JSON strings.
\<close>

definition asdict :: "CommandHistory \<Rightarrow> json" where
  "asdict c =
     JObject [(''action'', JString (action c)),
              (''timestamp'', JString (datetime_str (timestamp c))),
              (''args'', JObject (map (\<lambda>(k, v). (k, JString v)) (args c)))]"

text \<open>\<open>save_history\<close> replaces the file by the list of the records.\<close>

definition save_history :: "world \<Rightarrow> mixin \<Rightarrow> string \<Rightarrow> world" where
  "save_history w self filename =
     w\<lparr>files := (files w)(filename := Some (JArray (map asdict (history self))))\<rparr>"

text \<open>
  The keyword arguments \<open>**command["args"]\<close> of a replayed call. The model follows the
  call when every value is a string, as every value \<open>save_history\<close> writes is.
\<close>

fun str_values :: "(string \<times> json) list \<Rightarrow> kwargs option" where
  "str_values [] = Some []"
| "str_values ((k, v) # kvs) =
     (case v of
        JString s \<Rightarrow> (case str_values kvs of None \<Rightarrow> None | Some kw \<Rightarrow> Some ((k, s) # kw))
      | _ \<Rightarrow> None)"

text \<open>
  One round of the loop of \<open>load_and_replay_history\<close>:
  \<open>action = self.action_registry[command["action"]][0]\<close>, then
  \<open>action(self, **command["args"])\<close>. A command that is no object cannot be indexed
  by a string; a list or an object cannot be a key; any other key that is not
  registered is a \<open>KeyError\<close>.
\<close>

definition replay_command :: "registry \<Rightarrow> mixin \<Rightarrow> json \<Rightarrow> (error + string) \<times> mixin" where
  "replay_command reg self command =
     (case command of
        JObject members \<Rightarrow>
          (case map_of members ''action'' of
             None \<Rightarrow> (Inl (KeyError (JString ''action'')), self)
           | Some (JArray _) \<Rightarrow> (Inl TypeError, self)
           | Some (JObject _) \<Rightarrow> (Inl TypeError, self)
           | Some (JString key) \<Rightarrow>
               (case map_of reg key of
                  None \<Rightarrow> (Inl (KeyError (JString key)), self)
                | Some (act, match_type) \<Rightarrow>
                    (case map_of members ''args'' of
                       None \<Rightarrow> (Inl (KeyError (JString ''args'')), self)
                     | Some (JObject a) \<Rightarrow>
                         (case str_values a of
                            None \<Rightarrow> (Inl NotModelled, self)
                          | Some kw \<Rightarrow> call_handler act self kw)
                     | Some _ \<Rightarrow> (Inl TypeError, self)))
           | Some other \<Rightarrow> (Inl (KeyError other), self))
      | _ \<Rightarrow> (Inl TypeError, self))"

fun replay_commands :: "registry \<Rightarrow> mixin \<Rightarrow> json list \<Rightarrow> (error + unit) \<times> mixin" where
  "replay_commands reg self [] = (Inr (), self)"
| "replay_commands reg self (command # commands) =
     (case replay_command reg self command of
        (Inl e, self') \<Rightarrow> (Inl e, self')
      | (Inr r, self') \<Rightarrow> replay_commands reg self' commands)"

text \<open>
  \<open>load_and_replay_history\<close>. A file that holds a list is replayed command by
  command; iterating an empty object or string does nothing, a non-empty one gives
  strings, which cannot be indexed by \<open>"action"\<close>; the other values are not iterable.
\<close>

definition load_and_replay_history :: "world \<Rightarrow> mixin \<Rightarrow> string \<Rightarrow> (error + unit) \<times> mixin" where
  "load_and_replay_history w self filename =
     (case files w filename of
        None \<Rightarrow> (Inl FileNotFoundError, self)
      | Some (JArray commands) \<Rightarrow> replay_commands (dicts w (action_registry self)) self commands
      | Some (JObject members) \<Rightarrow> (if members = [] then (Inr (), self) else (Inl TypeError, self))
      | Some (JString s) \<Rightarrow> (if s = [] then (Inr (), self) else (Inl TypeError, self))
      | Some _ \<Rightarrow> (Inl TypeError, self))"

section \<open>The classes of the module\<close>

definition turn_on_light :: func where
  "turn_on_light =
     \<lparr>func_name = ''turn_on_light'', params = [], body = (\<lambda>vs. ''Turning on the light'')\<rparr>"

definition play_music :: func where
  "play_music = \<lparr>func_name = ''play_music'', params = [], body = (\<lambda>vs. ''Playing music'')\<rparr>"

text \<open>
  The body of \<open>make_rectangle\<close>, an f-string over the three parameters. A call binds
  exactly three values; the second equation is never reached through \<open>call\<close>.
\<close>

fun make_rectangle_body :: "string list \<Rightarrow> string" where
  "make_rectangle_body [width, height, position] =
     ''Making rectangle of width '' @ width @ '', height '' @ height @ '' at '' @ position"
| "make_rectangle_body vs = []"

definition make_rectangle :: func where
  "make_rectangle =
     \<lparr>func_name = ''make_rectangle'', params = [''width'', ''height'', ''position''],
      body = make_rectangle_body\<rparr>"

definition rectangle_pattern :: string where
  "rectangle_pattern =
     ''make rectangle of width (?P<width>'' @ [CHR 0x5C] @ ''d+) and height (?P<height>''
     @ [CHR 0x5C] @ ''d+) with top left corner at (?P<position>.+)''"

text \<open>
  The module after its body has run on a file system \<open>fs\<close>: the empty dict, then the
  decorators of \<open>TestControl\<close> and of \<open>PaintAppControl\<close>, top to bottom.
\<close>

definition voice_module :: "(string \<Rightarrow> json option) \<Rightarrow> world" where
  "voice_module fs =
     register_action rectangle_pattern DYNAMIC make_rectangle
       (register_action ''play music'' STARTS_WITH play_music
          (register_action ''turn on the light'' SUBSTRING turn_on_light
             \<lparr>dicts = (\<lambda>a. []), files = fs\<rparr>))"

section \<open>Words of the specification\<close>

text \<open>
  A whitespace-delimited token of \<open>s\<close>, in the words of the specification: a
  non-empty piece of \<open>s\<close> without whitespace that is bounded on each side by
  whitespace or by an end of \<open>s\<close>.
\<close>

definition is_token :: "string \<Rightarrow> string \<Rightarrow> bool" where
  "is_token w s =
     (w \<noteq> [] \<and> list_all (\<lambda>c. \<not> isspace c) w \<and>
      (\<exists>a b. s = a @ w @ b \<and> (a = [] \<or> isspace (last a)) \<and> (b = [] \<or> isspace (hd b))))"

text \<open>The matcher of a registry entry on a candidate.\<close>

abbreviation entry_match ::
  "search \<Rightarrow> string \<Rightarrow> string \<times> (func \<times> MatchType) \<Rightarrow> error + bool" where
  "entry_match re_search command e \<equiv> is_match re_search command (fst e) (snd (snd e))"

text \<open>The matcher of a decoration \<open>(pattern, match_type, func)\<close> on a candidate.\<close>

abbreviation decoration_match ::
  "search \<Rightarrow> string \<Rightarrow> string \<times> (MatchType \<times> func) \<Rightarrow> error + bool" where
  "decoration_match re_search command d \<equiv> is_match re_search command (fst d) (fst (snd d))"

text \<open>
  \<open>replays reg r c\<close>: the logged call \<open>c\<close> is the replay of the record \<open>r\<close>, that is the
  handler registered under the record's action, called with the record's args.
\<close>

definition replays :: "registry \<Rightarrow> CommandHistory \<Rightarrow> string \<times> kwargs \<Rightarrow> bool" where
  "replays reg r c =
     (snd c = args r \<and>
      (\<exists>f match_type. map_of reg (action r) = Some (f, match_type) \<and> fst c = func_name f))"

text \<open>
  \<open>binds reg r\<close>: the action of \<open>r\<close> is a key of the registry and the call of its
  handler with the args of \<open>r\<close> as keyword arguments binds every parameter.
\<close>


definition binds :: "registry \<Rightarrow> CommandHistory \<Rightarrow> bool" where
  "binds reg r =
     (\<exists>f match_type res. map_of reg (action r) = Some (f, match_type) \<and> call f (args r) = Inr res)"

section \<open>Examples\<close>

text \<open>A module whose dict is still empty, on an empty file system.\<close>

definition empty_world :: world where
  "empty_world = \<lparr>dicts = (\<lambda>a. []), files = (\<lambda>n. None)\<rparr>"

text \<open>
  The registry of the specification's example of precedence: \<open>(A, Substring, "turn")\<close>
  registered before \<open>(B, Substring, "turn on")\<close>.
\<close>

definition handler_A :: func where
  "handler_A = \<lparr>func_name = ''A'', params = [], body = (\<lambda>vs. ''A fired'')\<rparr>"

definition handler_B :: func where
  "handler_B = \<lparr>func_name = ''B'', params = [], body = (\<lambda>vs. ''B fired'')\<rparr>"

definition registry_A_B :: world where
  "registry_A_B =
     register_action ''turn on'' SUBSTRING handler_B
       (register_action ''turn'' SUBSTRING handler_A empty_world)"

text \<open>
  The pattern of B registered a second time, for a handler C, after A was registered.
\<close>

definition handler_C :: func where
  "handler_C = \<lparr>func_name = ''C'', params = [], body = (\<lambda>vs. ''C fired'')\<rparr>"

definition registry_B_A_C :: world where
  "registry_B_A_C =
     register_all
       [(''turn on'', SUBSTRING, handler_B), (''turn'', SUBSTRING, handler_A),
        (''turn on'', SUBSTRING, handler_C)]
       empty_world"

text \<open>The module with one more entry, a \<open>SUBSTRING\<close> pattern that does not compile.\<close>

definition module_with_malformed :: world where
  "module_with_malformed =
     register_action ''lights ('' SUBSTRING play_music (voice_module (files empty_world))"

text \<open>The candidate of the specification's rectangle example.\<close>

definition rectangle_command :: string where
  "rectangle_command = ''make rectangle of width 10 and height 20 with top left corner at 0,0''"

definition new_year :: datetime where
  "new_year =
     \<lparr>year = 2024, month = 1, day = 1, hour = 0, minute = 0, second = 0, microsecond = 0\<rparr>"


text \<open>
  An instance whose second record names an action, \<open>dance\<close>, that the module does not
  register.
\<close>

definition stale :: mixin where
  "stale =
     add_to_history
       (add_to_history
          (add_to_history (init TestControl) ''play music'' [] new_year)
          ''dance'' [] new_year)
       ''turn on the light'' [] new_year"

section \<open>The string operations meet their descriptions\<close>

lemma startswith_iff: "startswith s p \<longleftrightarrow> (\<exists>t. s = p @ t)"
  by (induction s p rule: startswith.induct) auto

lemma contains_iff: "contains s w \<longleftrightarrow> (\<exists>a b. s = a @ w @ b)"
proof (induction s)
  case Nil
  then show ?case by auto
next
  case (Cons c cs)
  show ?case
  proof
    assume "contains (c # cs) w"
    then consider "startswith (c # cs) w" | "contains cs w" by auto
    then show "\<exists>a b. c # cs = a @ w @ b"
    proof cases
      case 1
      then obtain t where "c # cs = w @ t" using startswith_iff by blast
      then have "c # cs = [] @ w @ t" by simp
      then show ?thesis by blast
    next
      case 2
      then obtain a b where "cs = a @ w @ b" using Cons.IH by blast
      then have "c # cs = (c # a) @ w @ b" by simp
      then show ?thesis by blast
    qed
  next
    assume "\<exists>a b. c # cs = a @ w @ b"
    then obtain a b where ab: "c # cs = a @ w @ b" by blast
    show "contains (c # cs) w"
    proof (cases a)
      case Nil
      then have "startswith (c # cs) w" using ab startswith_iff by auto
      then show ?thesis by simp
    next
      case (Cons x a')
      then have "cs = a' @ w @ b" using ab by simp
      then have "contains cs w" using Cons.IH by blast
      then show ?thesis by simp
    qed
  qed
qed

lemma token_Nil: "\<not> is_token t []"
  by (auto simp: is_token_def)

lemma token_word:
  assumes "list_all (\<lambda>c. \<not> isspace c) w" "w \<noteq> []"
  shows "is_token t w \<longleftrightarrow> t = w"
proof
  assume "is_token t w"
  then obtain a b where t: "t \<noteq> []" and w: "w = a @ t @ b"
    and a: "a = [] \<or> isspace (last a)" and b: "b = [] \<or> isspace (hd b)"
    by (auto simp: is_token_def)
  have "a = []"
  proof (rule ccontr)
    assume "a \<noteq> []"
    then have "last a \<in> set w" "isspace (last a)" using w a by auto
    then show False using assms(1) by (auto simp: list_all_iff)
  qed
  moreover have "b = []"
  proof (rule ccontr)
    assume "b \<noteq> []"
    then have "hd b \<in> set w" "isspace (hd b)" using w b by auto
    then show False using assms(1) by (auto simp: list_all_iff)
  qed
  ultimately show "t = w" using w by simp
next
  assume tw: "t = w"
  have "\<exists>a b. w = a @ t @ b \<and> (a = [] \<or> isspace (last a)) \<and> (b = [] \<or> isspace (hd b))"
    by (rule exI[of _ "[]"], rule exI[of _ "[]"]) (simp add: tw)
  then show "is_token t w" unfolding is_token_def using assms tw by simp
qed

lemma token_after_space:
  assumes sp: "isspace c" and w: "list_all (\<lambda>c. \<not> isspace c) w"
  shows "is_token t (w @ c # cs) \<longleftrightarrow> (w \<noteq> [] \<and> t = w) \<or> is_token t cs"
proof
  assume "is_token t (w @ c # cs)"
  then obtain a b where t: "t \<noteq> []" and tns: "list_all (\<lambda>c. \<not> isspace c) t"
    and eq: "w @ c # cs = a @ t @ b"
    and a: "a = [] \<or> isspace (last a)" and b: "b = [] \<or> isspace (hd b)"
    by (auto simp: is_token_def)
  from eq obtain us where
    us: "(w = a @ us \<and> us @ c # cs = t @ b) \<or> (w @ us = a \<and> c # cs = us @ t @ b)"
    unfolding append_eq_append_conv2 by blast
  have "(w = a @ us \<and> us @ c # cs = t @ b) \<or> (us \<noteq> [] \<and> w @ us = a \<and> c # cs = us @ t @ b)
        \<or> (w = a @ [] \<and> [] @ c # cs = t @ b)"
    using us by (cases "us = []") auto
  then consider us where "w = a @ us" "us @ c # cs = t @ b"
    | us where "w @ us = a" "c # cs = us @ t @ b" "us \<noteq> []"
    by blast
  then show "(w \<noteq> [] \<and> t = w) \<or> is_token t cs"
  proof cases
    case 1
    have "a = []"
    proof (rule ccontr)
      assume "a \<noteq> []"
      then have "last a \<in> set w" "isspace (last a)" using 1 a by auto
      then show False using w by (auto simp: list_all_iff)
    qed
    then have eq2: "w @ c # cs = t @ b" using eq by simp
    then obtain vs where
      vs: "(w = t @ vs \<and> vs @ c # cs = b) \<or> (w @ vs = t \<and> c # cs = vs @ b)"
      unfolding append_eq_append_conv2 by blast
    have "(w = t @ vs \<and> vs @ c # cs = b) \<or> (vs \<noteq> [] \<and> w @ vs = t \<and> c # cs = vs @ b)
          \<or> (w = t @ [] \<and> [] @ c # cs = b)"
      using vs by (cases "vs = []") auto
    then consider vs where "w = t @ vs" "vs @ c # cs = b"
      | vs where "w @ vs = t" "c # cs = vs @ b" "vs \<noteq> []"
      by blast
    then show ?thesis
    proof cases
      case 1
      have "vs = []"
      proof (rule ccontr)
        assume "vs \<noteq> []"
        then have "hd b = hd vs" "hd vs \<in> set w" "b \<noteq> []" using 1 by auto
        then show False using b w by (auto simp: list_all_iff)
      qed
      then show ?thesis using 1 t by auto
    next
      case 2
      then have "c \<in> set t" by (cases vs) auto
      then show ?thesis using tns sp by (auto simp: list_all_iff)
    qed
  next
    case 2
    then obtain us' where us: "us = c # us'" "cs = us' @ t @ b" by (cases us) auto
    have "us' = [] \<or> isspace (last us')"
      using a 2(1) us(1) by (cases "us' = []") auto
    then have "is_token t cs" unfolding is_token_def using t tns us(2) b by blast
    then show ?thesis by simp
  qed
next
  assume "(w \<noteq> [] \<and> t = w) \<or> is_token t cs"
  then show "is_token t (w @ c # cs)"
  proof
    assume h: "w \<noteq> [] \<and> t = w"
    have "w @ c # cs = [] @ t @ (c # cs)" using h by simp
    moreover have "c # cs = [] \<or> isspace (hd (c # cs))" using sp by simp
    ultimately show ?thesis unfolding is_token_def using h w by blast
  next
    assume "is_token t cs"
    then obtain a b where t: "t \<noteq> []" and tns: "list_all (\<lambda>c. \<not> isspace c) t"
      and eq: "cs = a @ t @ b"
      and a: "a = [] \<or> isspace (last a)" and b: "b = [] \<or> isspace (hd b)"
      by (auto simp: is_token_def)
    have "w @ c # cs = (w @ c # a) @ t @ b" using eq by simp
    moreover have "w @ c # a = [] \<or> isspace (last (w @ c # a))" using a sp by auto
    ultimately show ?thesis unfolding is_token_def using t tns b by blast
  qed
qed

lemma set_split_scan:
  "list_all (\<lambda>c. \<not> isspace c) w \<Longrightarrow> set (split_scan w s) = {t. is_token t (w @ s)}"
proof (induction s arbitrary: w)
  case Nil
  then show ?case by (auto simp: token_Nil token_word)
next
  case (Cons c cs)
  show ?case
  proof (cases "isspace c")
    case True
    have "set (split_scan [] cs) = {t. is_token t cs}" using Cons.IH[of "[]"] by simp
    then show ?thesis using True token_after_space[OF True Cons.prems] by auto
  next
    case False
    then have "list_all (\<lambda>c. \<not> isspace c) (w @ [c])" using Cons.prems by simp
    then have "set (split_scan (w @ [c]) cs) = {t. is_token t ((w @ [c]) @ cs)}" by (rule Cons.IH)
    then show ?thesis using False by simp
  qed
qed

lemma set_str_split: "set (str_split s) = {t. is_token t s}"
  using set_split_scan[of "[]" s] by (simp add: str_split_def)

section \<open>The matcher\<close>

text \<open>
  C7. For every pattern and candidate the AllKeywords matcher returns true iff
  every whitespace-delimited token of the pattern occurs in the candidate as a
  substring, in any order and at any position. The pattern \<open>turn on light\<close> matches
  the candidate \<open>please turn the light on now\<close> and does not match \<open>turn the light\<close>.
\<close>

theorem all_keywords_matcher:
  "is_match re_search command pattern ALL_KEYWORDS =
     Inr (\<forall>w. is_token w pattern \<longrightarrow> (\<exists>a b. command = a @ w @ b))
   \<and> is_match re_search ''please turn the light on now'' ''turn on light'' ALL_KEYWORDS = Inr True
   \<and> is_match re_search ''turn the light'' ''turn on light'' ALL_KEYWORDS = Inr False"
proof (intro conjI)
  have "list_all (\<lambda>word. contains command word) (str_split pattern)
          = (\<forall>w. is_token w pattern \<longrightarrow> (\<exists>a b. command = a @ w @ b))"
    by (simp add: list_all_iff set_str_split contains_iff)
  then show "is_match re_search command pattern ALL_KEYWORDS =
     Inr (\<forall>w. is_token w pattern \<longrightarrow> (\<exists>a b. command = a @ w @ b))"
    by (simp add: is_match_def)
  show "is_match re_search ''please turn the light on now'' ''turn on light'' ALL_KEYWORDS = Inr True"
    by (simp add: is_match_def str_split_def isspace_def)
  show "is_match re_search ''turn the light'' ''turn on light'' ALL_KEYWORDS = Inr False"
    by (simp add: is_match_def str_split_def isspace_def)
qed

theorem all_keywords_matcher_witness:
  "is_token ''on'' ''turn on light''
   \<and> (\<exists>a b. ''please turn the light on now'' = a @ ''on'' @ b)"
proof -
  have "\<exists>a b. ''turn on light'' = a @ ''on'' @ b
          \<and> (a = [] \<or> isspace (last a)) \<and> (b = [] \<or> isspace (hd b))"
    by (rule exI[of _ "''turn ''"], rule exI[of _ "'' light''"]) (simp add: isspace_def)
  then have tok: "is_token ''on'' ''turn on light''"
    by (simp add: is_token_def isspace_def)
  have "is_match literal_search ''please turn the light on now'' ''turn on light'' ALL_KEYWORDS
          = Inr True"
    by (simp add: is_match_def str_split_def isspace_def)
  with all_keywords_matcher[of literal_search "''please turn the light on now''" "''turn on light''"]
  have "\<forall>w. is_token w ''turn on light''
          \<longrightarrow> (\<exists>a b. ''please turn the light on now'' = a @ w @ b)"
    by simp
  with tok show ?thesis by blast
qed

text \<open>
  C5. \<open>is_match\<close> has no branch for \<open>STATIC\<close>: it returns false for every pattern and
  candidate, also when the candidate equals the pattern. An action registered with
  the decorator's default match type is never dispatched.
\<close>

theorem static_never_matches:
  "is_match re_search command pattern STATIC = Inr False
   \<and> perform_action re_search (register_action_default ''lights'' turn_on_light empty_world)
        (init TestControl) ''lights''
     = (Inr ''Command not recognized'', init TestControl)"
  by (simp add: is_match_def perform_action_def register_action_default_def register_action_def
      empty_world_def init_def module_action_registry_def)

section \<open>Registration\<close>

lemma map_of_dict_set: "map_of (dict_set k v d) k = Some v"
  by (induction d) auto

lemma map_of_dict_set_other: "k' \<noteq> k \<Longrightarrow> map_of (dict_set k v d) k' = map_of d k'"
  by (induction d) auto

lemma keys_dict_set:
  "map fst (dict_set k v d) = (if k \<in> set (map fst d) then map fst d else map fst d @ [k])"
  by (induction d) (force simp: image_iff)+

lemma distinct_dict_set: "distinct (map fst d) \<Longrightarrow> distinct (map fst (dict_set k v d))"
  by (simp add: keys_dict_set)

section \<open>Dispatch\<close>

lemma dict_set_new: "k \<notin> set (map fst d) \<Longrightarrow> dict_set k v d = d @ [(k, v)]"
  by (induction d) auto

lemma dicts_register_action:
  "dicts (register_action pattern match_type f w) module_action_registry =
     dict_set pattern (f, match_type) (dicts w module_action_registry)"
  by (simp add: register_action_def)

lemma dicts_register_all:
  "distinct (map fst ds) \<Longrightarrow>
   set (map fst ds) \<inter> set (map fst (dicts w module_action_registry)) = {} \<Longrightarrow>
   dicts (register_all ds w) module_action_registry =
     dicts w module_action_registry @ map (\<lambda>d. (fst d, (snd (snd d), fst (snd d)))) ds"
proof (induction ds arbitrary: w)
  case Nil
  then show ?case by simp
next
  case (Cons d ds)
  obtain pattern match_type f where d: "d = (pattern, match_type, f)" by (cases d) auto
  let ?w = "register_action pattern match_type f w"
  have new: "pattern \<notin> set (map fst (dicts w module_action_registry))"
    using Cons.prems(2) d by auto
  then have step: "dicts ?w module_action_registry =
      dicts w module_action_registry @ [(pattern, (f, match_type))]"
    by (simp add: dicts_register_action dict_set_new)
  have "distinct (map fst ds)" using Cons.prems(1) by simp
  moreover have "set (map fst ds) \<inter> set (map fst (dicts ?w module_action_registry)) = {}"
    using Cons.prems d step by auto
  ultimately have "dicts (register_all ds ?w) module_action_registry =
      dicts ?w module_action_registry @ map (\<lambda>d. (fst d, (snd (snd d), fst (snd d)))) ds"
    by (rule Cons.IH)
  then show ?case using d step by simp
qed

text \<open>The module's three decorators are such a list of decorations.\<close>

lemma voice_module_register_all:
  "voice_module fs =
     register_all
       [(''turn on the light'', SUBSTRING, turn_on_light), (''play music'', STARTS_WITH, play_music),
        (rectangle_pattern, DYNAMIC, make_rectangle)]
       \<lparr>dicts = (\<lambda>a. []), files = fs\<rparr>"
  by (simp add: voice_module_def)

lemma perform_items_skip:
  "\<forall>e\<in>set pre. entry_match re_search command e = Inr False \<Longrightarrow>
     perform_items re_search (pre @ rest) self command = perform_items re_search rest self command"
  by (induction pre) auto

lemma perform_items_at:
  assumes "k < length reg" "\<forall>m<k. entry_match re_search command (reg ! m) = Inr False"
  shows "perform_items re_search reg self command =
     (case entry_match re_search command (reg ! k) of
        Inl e \<Rightarrow> (Inl e, self)
      | Inr matched \<Rightarrow>
          if matched then call_handler (fst (snd (reg ! k))) self []
          else perform_items re_search (drop (Suc k) reg) self command)"
proof -
  have split: "reg = take k reg @ reg ! k # drop (Suc k) reg"
    using assms(1) by (rule id_take_nth_drop)
  have "\<forall>e\<in>set (take k reg). entry_match re_search command e = Inr False"
  proof
    fix e assume "e \<in> set (take k reg)"
    then obtain m where "m < k" "e = reg ! m"
      using assms(1) by (auto simp: in_set_conv_nth)
    then show "entry_match re_search command e = Inr False" using assms(2) by simp
  qed
  then have "perform_items re_search (take k reg @ reg ! k # drop (Suc k) reg) self command =
     perform_items re_search (reg ! k # drop (Suc k) reg) self command"
    by (rule perform_items_skip)
  then have "perform_items re_search reg self command =
     perform_items re_search (reg ! k # drop (Suc k) reg) self command"
    using split by simp
  then show ?thesis by (cases "reg ! k") (auto split: sum.splits)
qed

lemma first_undecided:
  assumes "P (i::nat)"
  shows "\<exists>k\<le>i. (\<forall>m<k. \<not> P m) \<and> P k"
proof -
  define k where "k = (LEAST n. P n)"
  have "P k" unfolding k_def using assms by (rule LeastI)
  moreover have "k \<le> i" unfolding k_def using assms by (rule Least_le)
  moreover have "\<forall>m<k. \<not> P m" unfolding k_def using not_less_Least by blast
  ultimately show ?thesis by blast
qed

lemma first_match_decides:
  assumes "i < length reg" "entry_match re_search command (reg ! i) = Inr True"
  shows "\<exists>k\<le>i. (\<forall>m<k. entry_match re_search command (reg ! m) = Inr False)
            \<and> entry_match re_search command (reg ! k) \<noteq> Inr False
            \<and> perform_items re_search reg self command =
                (case entry_match re_search command (reg ! k) of
                   Inl e \<Rightarrow> (Inl e, self)
                 | Inr matched \<Rightarrow> call_handler (fst (snd (reg ! k))) self [])"
proof -
  have "entry_match re_search command (reg ! i) \<noteq> Inr False" using assms(2) by simp
  from first_undecided[of "\<lambda>n. entry_match re_search command (reg ! n) \<noteq> Inr False", OF this]
  obtain k where k: "k \<le> i" "\<forall>m<k. entry_match re_search command (reg ! m) = Inr False"
    "entry_match re_search command (reg ! k) \<noteq> Inr False"
    by auto
  have "k < length reg" using k(1) assms(1) by simp
  then have "perform_items re_search reg self command =
      (case entry_match re_search command (reg ! k) of
         Inl e \<Rightarrow> (Inl e, self)
       | Inr matched \<Rightarrow> call_handler (fst (snd (reg ! k))) self [])"
    using perform_items_at[OF _ k(2), of self] k(3)
    by (auto split: sum.splits)
  with k show ?thesis by blast
qed

lemma perform_items_none:
  "\<forall>e\<in>set reg. entry_match re_search command e = Inr False \<Longrightarrow>
     perform_items re_search reg self command = (Inr ''Command not recognized'', self)"
  using perform_items_skip[of reg re_search command "[]" self] by simp

lemma perform_items_no_accept:
  "\<forall>e\<in>set reg. entry_match re_search command e \<noteq> Inr True \<Longrightarrow>
     perform_items re_search reg self command = (Inr ''Command not recognized'', self)
     \<or> (\<exists>en\<in>set reg. \<exists>x. entry_match re_search command en = Inl x
           \<and> perform_items re_search reg self command = (Inl x, self))"
proof (induction reg)
  case Nil
  then show ?case by simp
next
  case (Cons en reg)
  obtain pattern act match_type where en: "en = (pattern, (act, match_type))"
    by (cases en) auto
  show ?case
  proof (cases "is_match re_search command pattern match_type")
    case (Inl x)
    then show ?thesis using en by auto
  next
    case (Inr matched)
    then have "\<not> matched" using Cons.prems en by auto
    then have "perform_items re_search (en # reg) self command =
        perform_items re_search reg self command"
      using Inr en by simp
    then show ?thesis using Cons by auto
  qed
qed

lemma call_handler_history: "history (snd (call_handler f self kw)) = history self"
  by (simp add: call_handler_def split: sum.splits)

lemma perform_items_history:
  "history (snd (perform_items re_search reg self command)) = history self"
  by (induction reg) (auto simp: call_handler_history split: sum.splits)

text \<open>
  Dispatch never appends to the history: \<open>perform_action\<close> does not call
  \<open>add_to_history\<close>, whatever the registry and the candidate.
\<close>

lemma perform_action_history:
  "history (snd (perform_action re_search w self command)) = history self"
  by (simp add: perform_action_def perform_items_history)

lemma is_match_dynamic: "is_match re_search command pattern DYNAMIC = Inr False"
  by (simp add: is_match_def)

lemma is_match_raises:
  "is_match re_search command pattern match_type = Inl e \<Longrightarrow>
     match_type = SUBSTRING \<and> re_search pattern command = Inl e"
  by (auto simp: is_match_def split: if_splits sum.splits)

lemma is_match_not_substring:
  "match_type \<noteq> SUBSTRING \<Longrightarrow> \<exists>b. is_match re_search command pattern match_type = Inr b"
  by (auto simp: is_match_def)

lemma call_handler_raises: "fst (call_handler f self kw) = Inl e \<Longrightarrow> e = TypeError"
  by (auto simp: call_handler_def call_def split: sum.splits if_splits option.splits)

lemma perform_items_raises:
  "fst (perform_items re_search reg self command) = Inl e \<Longrightarrow>
     e = TypeError
     \<or> (\<exists>en\<in>set reg. snd (snd en) = SUBSTRING \<and> re_search (fst en) command = Inl e)"
proof (induction reg)
  case Nil
  then show ?case by simp
next
  case (Cons en reg)
  obtain pattern act match_type where en: "en = (pattern, (act, match_type))"
    by (cases en) auto
  show ?case
  proof (cases "is_match re_search command pattern match_type")
    case (Inl e')
    then have "e' = e" using Cons.prems en by simp
    then show ?thesis using is_match_raises[OF Inl] en by simp
  next
    case (Inr matched)
    show ?thesis
    proof (cases matched)
      case True
      then have "fst (call_handler act self []) = Inl e" using Cons.prems en Inr by simp
      then show ?thesis using call_handler_raises by blast
    next
      case False
      then have "fst (perform_items re_search reg self command) = Inl e"
        using Cons.prems en Inr by simp
      then show ?thesis using Cons.IH by auto
    qed
  qed
qed

lemmas dispatch_eval = perform_action_def voice_module_def register_action_def init_def
  module_action_registry_def is_match_def literal_search_def literal_compile_def special_def
  rectangle_pattern_def call_handler_def call_def empty_world_def

text \<open>
  C3, as amended. Precedence follows the order in which the patterns were first
  registered. When the decorations have pairwise distinct patterns and two of them
  both match the candidate, dispatch is decided at the first decoration, in
  registration order, whose matcher does not return false; it is registered at or
  before the earlier of the two, and no later one is looked at. When no decoration
  before the earlier of the two matches, the handler called is the earlier one's.
  Registering a pattern that is already registered replaces its handler and match
  type and leaves every pattern at its place. With \<open>(A, Substring, "turn")\<close>
  registered before \<open>(B, Substring, "turn on")\<close> the candidate \<open>turn on the light\<close>
  fires A.
\<close>

theorem first_registered_wins:
  assumes "distinct (map fst decorations)"
    and "dicts w module_action_registry = []"
    and "action_registry self = module_action_registry"
    and "i < j" and "j < length decorations"
    and "decoration_match re_search command (decorations ! i) = Inr True"
    and "decoration_match re_search command (decorations ! j) = Inr True"
  shows "(\<exists>k\<le>i. (\<forall>m<k. decoration_match re_search command (decorations ! m) = Inr False)
            \<and> decoration_match re_search command (decorations ! k) \<noteq> Inr False
            \<and> perform_action re_search (register_all decorations w) self command =
                (case decoration_match re_search command (decorations ! k) of
                   Inl e \<Rightarrow> (Inl e, self)
                 | Inr matched \<Rightarrow> call_handler (snd (snd (decorations ! k))) self []))
       \<and> ((\<forall>m<i. decoration_match re_search command (decorations ! m) = Inr False) \<longrightarrow>
            perform_action re_search (register_all decorations w) self command =
              call_handler (snd (snd (decorations ! i))) self [])
       \<and> (pattern \<in> set (map fst (dicts w' module_action_registry)) \<longrightarrow>
            map fst (dicts (register_action pattern match_type f w') module_action_registry)
              = map fst (dicts w' module_action_registry)
            \<and> map_of (dicts (register_action pattern match_type f w') module_action_registry)
                pattern = Some (f, match_type))
       \<and> perform_action literal_search registry_A_B (init TestControl) ''turn on the light'' =
            (Inr ''A fired'', (init TestControl)\<lparr>invoked := [(''A'', [])]\<rparr>)"
proof (intro conjI)
  let ?reg = "dicts (register_all decorations w) module_action_registry"
  have reg: "?reg = map (\<lambda>d. (fst d, (snd (snd d), fst (snd d)))) decorations"
    using dicts_register_all[of decorations w] assms(1,2) by simp
  have i: "i < length decorations" using assms(4,5) by simp
  have at: "entry_match re_search command (?reg ! m) =
        decoration_match re_search command (decorations ! m)
      \<and> fst (snd (?reg ! m)) = snd (snd (decorations ! m))"
    if "m < length decorations" for m
    using that by (simp add: reg)
  have act: "perform_action re_search (register_all decorations w) self command =
      perform_items re_search ?reg self command"
    by (simp add: perform_action_def assms(3))
  have "i < length ?reg" using i by (simp add: reg)
  moreover have "entry_match re_search command (?reg ! i) = Inr True"
    using at[OF i] assms(6) by simp
  ultimately obtain k where k: "k \<le> i"
    "\<forall>m<k. entry_match re_search command (?reg ! m) = Inr False"
    "entry_match re_search command (?reg ! k) \<noteq> Inr False"
    "perform_items re_search ?reg self command =
       (case entry_match re_search command (?reg ! k) of
          Inl e \<Rightarrow> (Inl e, self)
        | Inr matched \<Rightarrow> call_handler (fst (snd (?reg ! k))) self [])"
    using first_match_decides[of i ?reg re_search command self] by blast
  have klen: "k < length decorations" using k(1) i by simp
  have "\<forall>m<k. decoration_match re_search command (decorations ! m) = Inr False"
  proof (intro allI impI)
    fix m assume mk: "m < k"
    then have ml: "m < length decorations" using klen by simp
    from at[OF ml] k(2) mk
    show "decoration_match re_search command (decorations ! m) = Inr False" by simp
  qed
  moreover have "decoration_match re_search command (decorations ! k) \<noteq> Inr False"
    using at[OF klen] k(3) by simp
  moreover have "perform_action re_search (register_all decorations w) self command =
      (case decoration_match re_search command (decorations ! k) of
         Inl e \<Rightarrow> (Inl e, self)
       | Inr matched \<Rightarrow> call_handler (snd (snd (decorations ! k))) self [])"
    using act k(4) at[OF klen] by (simp cong: sum.case_cong)
  ultimately show "\<exists>k\<le>i.
      (\<forall>m<k. decoration_match re_search command (decorations ! m) = Inr False)
      \<and> decoration_match re_search command (decorations ! k) \<noteq> Inr False
      \<and> perform_action re_search (register_all decorations w) self command =
          (case decoration_match re_search command (decorations ! k) of
             Inl e \<Rightarrow> (Inl e, self)
           | Inr matched \<Rightarrow> call_handler (snd (snd (decorations ! k))) self [])"
    using k(1) by blast
  show "(\<forall>m<i. decoration_match re_search command (decorations ! m) = Inr False) \<longrightarrow>
      perform_action re_search (register_all decorations w) self command =
        call_handler (snd (snd (decorations ! i))) self []"
  proof
    assume none: "\<forall>m<i. decoration_match re_search command (decorations ! m) = Inr False"
    have "\<forall>m<i. entry_match re_search command (?reg ! m) = Inr False"
    proof (intro allI impI)
      fix m assume mi: "m < i"
      then have ml: "m < length decorations" using i by simp
      from at[OF ml] none mi
      show "entry_match re_search command (?reg ! m) = Inr False" by simp
    qed
    from perform_items_at[OF \<open>i < length ?reg\<close> this, of self]
    show "perform_action re_search (register_all decorations w) self command =
        call_handler (snd (snd (decorations ! i))) self []"
      using act at[OF i] assms(6) by simp
  qed
  show "pattern \<in> set (map fst (dicts w' module_action_registry)) \<longrightarrow>
      map fst (dicts (register_action pattern match_type f w') module_action_registry)
        = map fst (dicts w' module_action_registry)
      \<and> map_of (dicts (register_action pattern match_type f w') module_action_registry)
          pattern = Some (f, match_type)"
    by (simp add: dicts_register_action keys_dict_set map_of_dict_set)
  show "perform_action literal_search registry_A_B (init TestControl) ''turn on the light'' =
      (Inr ''A fired'', (init TestControl)\<lparr>invoked := [(''A'', [])]\<rparr>)"
    by (simp add: registry_A_B_def dispatch_eval handler_A_def handler_B_def)
qed

theorem first_registered_wins_witness:
  "distinct (map fst [(''turn'', SUBSTRING, handler_A), (''turn on'', SUBSTRING, handler_B)])
   \<and> dicts empty_world module_action_registry = []
   \<and> action_registry (init TestControl) = module_action_registry
   \<and> decoration_match literal_search ''turn on the light''
        ([(''turn'', SUBSTRING, handler_A), (''turn on'', SUBSTRING, handler_B)] ! 0) = Inr True
   \<and> decoration_match literal_search ''turn on the light''
        ([(''turn'', SUBSTRING, handler_A), (''turn on'', SUBSTRING, handler_B)] ! 1) = Inr True
   \<and> perform_action literal_search
        (register_all [(''turn'', SUBSTRING, handler_A), (''turn on'', SUBSTRING, handler_B)]
           empty_world)
        (init TestControl) ''turn on the light''
      = call_handler handler_A (init TestControl) []
   \<and> fst (call_handler handler_A (init TestControl) []) = Inr ''A fired''"
proof -
  let ?ds = "[(''turn'', SUBSTRING, handler_A), (''turn on'', SUBSTRING, handler_B)]"
  have d: "distinct (map fst ?ds)" by simp
  have e: "dicts empty_world module_action_registry = []" by (simp add: empty_world_def)
  have a: "action_registry (init TestControl) = module_action_registry" by (simp add: init_def)
  have len: "1 < length ?ds" by simp
  have m0: "decoration_match literal_search ''turn on the light'' (?ds ! 0) = Inr True"
    by (simp add: is_match_def literal_search_def literal_compile_def special_def)
  have m1: "decoration_match literal_search ''turn on the light'' (?ds ! 1) = Inr True"
    by (simp add: is_match_def literal_search_def literal_compile_def special_def)
  have "perform_action literal_search (register_all ?ds empty_world) (init TestControl)
          ''turn on the light''
        = call_handler (snd (snd (?ds ! 0))) (init TestControl) []"
    using first_registered_wins[OF d e a zero_less_one len m0 m1] by blast
  then have "perform_action literal_search (register_all ?ds empty_world) (init TestControl)
          ''turn on the light''
        = call_handler handler_A (init TestControl) []"
    by simp
  moreover have "fst (call_handler handler_A (init TestControl) []) = Inr ''A fired''"
    by (simp add: call_handler_def call_def handler_A_def)
  ultimately show ?thesis using d e a m0 m1 by simp
qed

text \<open>
  C3 as stated fails. B is registered under \<open>turn on\<close>, then A under \<open>turn\<close>, then C
  under \<open>turn on\<close> again. The registry holds C at the first place and A at the second,
  both match \<open>turn on the light\<close>, and dispatch calls C, which was registered after A.
\<close>

theorem first_registered_wins_counterexample:
  "map fst (dicts registry_B_A_C module_action_registry) = [''turn on'', ''turn'']
   \<and> map_of (dicts registry_B_A_C module_action_registry) ''turn on''
       = Some (handler_C, SUBSTRING)
   \<and> map_of (dicts registry_B_A_C module_action_registry) ''turn''
       = Some (handler_A, SUBSTRING)
   \<and> is_match literal_search ''turn on the light'' ''turn on'' SUBSTRING = Inr True
   \<and> is_match literal_search ''turn on the light'' ''turn'' SUBSTRING = Inr True
   \<and> perform_action literal_search registry_B_A_C (init TestControl) ''turn on the light''
       = (Inr ''C fired'', (init TestControl)\<lparr>invoked := [(''C'', [])]\<rparr>)"
  by (simp add: registry_B_A_C_def dispatch_eval handler_A_def handler_B_def handler_C_def)

text \<open>
  C6, as amended. When the matcher of every registered entry returns false on the
  candidate, dispatch returns exactly \<open>Command not recognized\<close> and leaves the instance
  as it was. When no matcher returns true, dispatch calls no handler: it returns
  \<open>Command not recognized\<close>, or it raises the exception that the matcher of an entry
  raises. For \<open>do something unknown\<close> against the module's registry it returns
  \<open>Command not recognized\<close>.
\<close>

theorem unmatched_command_not_recognized:
  "((\<forall>e\<in>set (dicts w (action_registry self)). entry_match re_search command e = Inr False) \<longrightarrow>
      perform_action re_search w self command = (Inr ''Command not recognized'', self))
   \<and> ((\<forall>e\<in>set (dicts w (action_registry self)). entry_match re_search command e \<noteq> Inr True) \<longrightarrow>
      perform_action re_search w self command = (Inr ''Command not recognized'', self)
      \<or> (\<exists>en\<in>set (dicts w (action_registry self)). \<exists>x.
            entry_match re_search command en = Inl x
            \<and> perform_action re_search w self command = (Inl x, self)))
   \<and> perform_action literal_search (voice_module fs) (init c) ''do something unknown''
       = (Inr ''Command not recognized'', init c)"
proof (intro conjI impI)
  assume "\<forall>e\<in>set (dicts w (action_registry self)). entry_match re_search command e = Inr False"
  then show "perform_action re_search w self command = (Inr ''Command not recognized'', self)"
    unfolding perform_action_def by (rule perform_items_none)
next
  assume "\<forall>e\<in>set (dicts w (action_registry self)). entry_match re_search command e \<noteq> Inr True"
  then show "perform_action re_search w self command = (Inr ''Command not recognized'', self)
      \<or> (\<exists>en\<in>set (dicts w (action_registry self)). \<exists>x.
            entry_match re_search command en = Inl x
            \<and> perform_action re_search w self command = (Inl x, self))"
    unfolding perform_action_def by (rule perform_items_no_accept)
next
  show "perform_action literal_search (voice_module fs) (init c) ''do something unknown''
       = (Inr ''Command not recognized'', init c)"
    by (simp add: dispatch_eval)
qed

theorem unmatched_command_not_recognized_witness:
  "list_all (\<lambda>e. entry_match literal_search ''do something unknown'' e = Inr False)
     (dicts (voice_module (files empty_world)) (action_registry (init TestControl)))
   \<and> perform_action literal_search (voice_module (files empty_world)) (init TestControl)
        ''do something unknown''
       = (Inr ''Command not recognized'', init TestControl)"
proof -
  have h: "list_all (\<lambda>e. entry_match literal_search ''do something unknown'' e = Inr False)
     (dicts (voice_module (files empty_world)) (action_registry (init TestControl)))"
    by (simp add: dispatch_eval)
  then have "\<forall>e\<in>set (dicts (voice_module (files empty_world)) (action_registry (init TestControl))).
      entry_match literal_search ''do something unknown'' e = Inr False"
    by (simp add: list_all_iff)
  with unmatched_command_not_recognized[of "voice_module (files empty_world)"
      "init TestControl" literal_search "''do something unknown''"]
  have "perform_action literal_search (voice_module (files empty_world)) (init TestControl)
        ''do something unknown''
       = (Inr ''Command not recognized'', init TestControl)"
    by blast
  with h show ?thesis by blast
qed

text \<open>
  C6 as stated fails. With one more entry whose \<open>SUBSTRING\<close> pattern does not compile,
  no matcher of the registry accepts \<open>do something unknown\<close>: three return false and
  the fourth raises. Dispatch does not return \<open>Command not recognized\<close>, it raises
  \<open>re.error\<close>.
\<close>

theorem unmatched_command_counterexample:
  "map (entry_match literal_search ''do something unknown'')
     (dicts module_with_malformed (action_registry (init TestControl)))
     = [Inr False, Inr False, Inr False, Inl re_error]
   \<and> perform_action literal_search module_with_malformed (init TestControl)
        ''do something unknown''
       = (Inl re_error, init TestControl)"
  by (simp add: module_with_malformed_def dispatch_eval)

text \<open>
  C1. The module registers \<open>make_rectangle\<close> under the rectangle pattern with the match
  type \<open>DYNAMIC\<close>, and the handler, called with the three captures as keyword
  arguments, builds its string. Dispatch never gets there: \<open>is_match\<close> has no branch for
  \<open>DYNAMIC\<close>, so the candidate of the example is answered with
  \<open>Command not recognized\<close> and no handler runs.
\<close>

theorem rectangle_command_not_dispatched:
  "map_of (dicts (voice_module fs) (action_registry (init PaintAppControl))) rectangle_pattern
     = Some (make_rectangle, DYNAMIC)
   \<and> call make_rectangle [(''width'', ''10''), (''height'', ''20''), (''position'', ''0,0'')]
     = Inr ''Making rectangle of width 10, height 20 at 0,0''
   \<and> is_match re_search rectangle_command rectangle_pattern DYNAMIC = Inr False
   \<and> perform_action literal_search (voice_module fs) (init PaintAppControl) rectangle_command
     = (Inr ''Command not recognized'', init PaintAppControl)"
proof (intro conjI)
  show "map_of (dicts (voice_module fs) (action_registry (init PaintAppControl))) rectangle_pattern
     = Some (make_rectangle, DYNAMIC)"
    by (simp add: voice_module_def register_action_def init_def map_of_dict_set)
  show "call make_rectangle [(''width'', ''10''), (''height'', ''20''), (''position'', ''0,0'')]
     = Inr ''Making rectangle of width 10, height 20 at 0,0''"
    by (simp add: call_def make_rectangle_def)
  show "is_match re_search rectangle_command rectangle_pattern DYNAMIC = Inr False"
    by (simp add: is_match_def)
  show "perform_action literal_search (voice_module fs) (init PaintAppControl) rectangle_command
     = (Inr ''Command not recognized'', init PaintAppControl)"
    by (simp add: dispatch_eval rectangle_command_def)
qed

text \<open>
  C10. The \<open>action_registry\<close> of every instance, of whatever class, refers to the one
  dict of the module. An entry that a decorator stores is found through every
  instance, all instances see the same entries, and the answer of dispatch does not
  depend on the class of the instance: an instance of \<open>PaintAppControl\<close> dispatches
  the two patterns that \<open>TestControl\<close> registers.
\<close>

theorem instances_share_registry:
  "action_registry (init c) = module_action_registry
   \<and> map_of (dicts (register_action pattern match_type f w) (action_registry (init c))) pattern
       = Some (f, match_type)
   \<and> dicts w (action_registry (init c)) = dicts w (action_registry (init c'))
   \<and> fst (perform_action re_search w (init c) command)
       = fst (perform_action re_search w (init c') command)
   \<and> perform_action literal_search (voice_module fs) (init PaintAppControl) ''turn on the light''
       = (Inr ''Turning on the light'',
          (init PaintAppControl)\<lparr>invoked := [(''turn_on_light'', [])]\<rparr>)
   \<and> perform_action literal_search (voice_module fs) (init PaintAppControl) ''play music''
       = (Inr ''Playing music'', (init PaintAppControl)\<lparr>invoked := [(''play_music'', [])]\<rparr>)"
proof (intro conjI)
  show "action_registry (init c) = module_action_registry" by (simp add: init_def)
  show "map_of (dicts (register_action pattern match_type f w) (action_registry (init c))) pattern
       = Some (f, match_type)"
    by (simp add: init_def register_action_def map_of_dict_set)
  show "dicts w (action_registry (init c)) = dicts w (action_registry (init c'))"
    by (simp add: init_def)
  have "fst (perform_items re_search reg (init c) command)
      = fst (perform_items re_search reg (init c') command)" for reg
    by (induction reg) (auto simp: call_handler_def split: sum.splits)
  then show "fst (perform_action re_search w (init c) command)
      = fst (perform_action re_search w (init c') command)"
    by (simp add: perform_action_def init_def)
  show "perform_action literal_search (voice_module fs) (init PaintAppControl) ''turn on the light''
       = (Inr ''Turning on the light'',
          (init PaintAppControl)\<lparr>invoked := [(''turn_on_light'', [])]\<rparr>)"
    by (simp add: dispatch_eval turn_on_light_def)
  show "perform_action literal_search (voice_module fs) (init PaintAppControl) ''play music''
       = (Inr ''Playing music'', (init PaintAppControl)\<lparr>invoked := [(''play_music'', [])]\<rparr>)"
    by (simp add: dispatch_eval turn_on_light_def play_music_def)
qed

text \<open>
  C8, as amended. Registration validates nothing: \<open>register_action\<close> stores every
  pattern, malformed or not, under every match type, and cannot fail or skip. At
  dispatch only the patterns of \<open>SUBSTRING\<close> entries are compiled: the matcher of an
  entry of any other match type, \<open>DYNAMIC\<close> included, never raises, whatever its
  pattern, and dispatch raises a pattern-compilation error only when the search of
  a \<open>SUBSTRING\<close> pattern raises it. For a registry whose \<open>SUBSTRING\<close> patterns compile,
  dispatch never raises a pattern-compilation error.
\<close>

theorem registration_validates_nothing:
  "map_of (dicts (register_action pattern match_type f w) module_action_registry) pattern
     = Some (f, match_type)
   \<and> (match_type \<noteq> SUBSTRING \<longrightarrow>
        (\<exists>b. is_match re_search command pattern match_type = Inr b))
   \<and> (fst (perform_action re_search w self command) = Inl re_error \<longrightarrow>
        (\<exists>en\<in>set (dicts w (action_registry self)).
           snd (snd en) = SUBSTRING \<and> re_search (fst en) command = Inl re_error))
   \<and> ((\<forall>en\<in>set (dicts w (action_registry self)).
          snd (snd en) = SUBSTRING \<longrightarrow> re_search (fst en) command \<noteq> Inl re_error) \<longrightarrow>
        fst (perform_action re_search w self command) \<noteq> Inl re_error)"
proof (intro conjI impI)
  show "map_of (dicts (register_action pattern match_type f w) module_action_registry) pattern
     = Some (f, match_type)"
    by (simp add: register_action_def map_of_dict_set)
next
  assume "match_type \<noteq> SUBSTRING"
  then show "\<exists>b. is_match re_search command pattern match_type = Inr b"
    by (rule is_match_not_substring)
next
  assume "fst (perform_action re_search w self command) = Inl re_error"
  then show "\<exists>en\<in>set (dicts w (action_registry self)).
      snd (snd en) = SUBSTRING \<and> re_search (fst en) command = Inl re_error"
    using perform_items_raises[of re_search "dicts w (action_registry self)" self command re_error]
    by (auto simp: perform_action_def)
next
  assume ok: "\<forall>en\<in>set (dicts w (action_registry self)).
      snd (snd en) = SUBSTRING \<longrightarrow> re_search (fst en) command \<noteq> Inl re_error"
  show "fst (perform_action re_search w self command) \<noteq> Inl re_error"
  proof
    assume "fst (perform_action re_search w self command) = Inl re_error"
    then have "\<exists>en\<in>set (dicts w (action_registry self)).
        snd (snd en) = SUBSTRING \<and> re_search (fst en) command = Inl re_error"
      using perform_items_raises[of re_search "dicts w (action_registry self)" self command re_error]
      by (auto simp: perform_action_def)
    then show False using ok by blast
  qed
qed

theorem registration_validates_nothing_witness:
  "list_all (\<lambda>en. snd (snd en) \<noteq> SUBSTRING \<or> literal_search (fst en) rectangle_command = Inr False)
     (dicts (voice_module (files empty_world)) (action_registry (init PaintAppControl)))
   \<and> DYNAMIC \<noteq> SUBSTRING
   \<and> (\<exists>b. is_match literal_search rectangle_command rectangle_pattern DYNAMIC = Inr b)
   \<and> fst (perform_action literal_search (voice_module (files empty_world))
            (init PaintAppControl) rectangle_command) \<noteq> Inl re_error"
proof -
  let ?reg = "dicts (voice_module (files empty_world)) (action_registry (init PaintAppControl))"
  have h: "list_all
      (\<lambda>en. snd (snd en) \<noteq> SUBSTRING \<or> literal_search (fst en) rectangle_command = Inr False)
      ?reg"
    by (simp add: dispatch_eval rectangle_command_def)
  then have ok: "\<forall>en\<in>set ?reg.
      snd (snd en) = SUBSTRING \<longrightarrow> literal_search (fst en) rectangle_command \<noteq> Inl re_error"
    by (auto simp: list_all_iff)
  note inst = registration_validates_nothing[of rectangle_pattern DYNAMIC make_rectangle
      "voice_module (files empty_world)" literal_search rectangle_command "init PaintAppControl"]
  have "\<exists>b. is_match literal_search rectangle_command rectangle_pattern DYNAMIC = Inr b"
    using inst by blast
  moreover have "fst (perform_action literal_search (voice_module (files empty_world))
            (init PaintAppControl) rectangle_command) \<noteq> Inl re_error"
    using inst ok by blast
  ultimately show ?thesis using h by simp
qed

text \<open>
  C8 as stated fails. The pattern \<open>make circle (\<close> does not compile, and registering
  it as \<open>DYNAMIC\<close> stores the entry. The pattern \<open>turn (on\<close> does not compile either;
  registered as \<open>SUBSTRING\<close> it makes dispatch raise \<open>re.error\<close>.
\<close>

theorem malformed_pattern_counterexample:
  "literal_search ''make circle ('' ''make circle'' = Inl re_error
   \<and> map_of (dicts (register_action ''make circle ('' DYNAMIC make_rectangle empty_world)
               module_action_registry) ''make circle (''
       = Some (make_rectangle, DYNAMIC)
   \<and> literal_search ''turn (on'' ''turn on'' = Inl re_error
   \<and> perform_action literal_search
        (register_action ''turn (on'' SUBSTRING turn_on_light empty_world)
        (init TestControl) ''turn on''
       = (Inl re_error, init TestControl)"
  by (simp add: literal_search_def literal_compile_def special_def register_action_def
      empty_world_def module_action_registry_def perform_action_def init_def is_match_def)

section \<open>Replay\<close>

lemma str_values_saved: "str_values (map (\<lambda>(k, v). (k, JString v)) kw) = Some kw"
  by (induction kw) auto

lemma replay_command_saved:
  "replay_command reg self (asdict r) =
     (case map_of reg (action r) of
        None \<Rightarrow> (Inl (KeyError (JString (action r))), self)
      | Some (f, match_type) \<Rightarrow> call_handler f self (args r))"
  by (simp add: replay_command_def asdict_def str_values_saved split: option.splits)

lemma replay_command_binds:
  assumes "binds reg r"
  shows "\<exists>c res. replay_command reg self (asdict r) = (Inr res, self\<lparr>invoked := invoked self @ [c]\<rparr>)
           \<and> replays reg r c"
proof -
  from assms obtain f match_type res where
    f: "map_of reg (action r) = Some (f, match_type)" "call f (args r) = Inr res"
    by (auto simp: binds_def)
  then have "replay_command reg self (asdict r) =
      (Inr res, self\<lparr>invoked := invoked self @ [(func_name f, args r)]\<rparr>)"
    by (simp add: replay_command_saved call_handler_def)
  moreover have "replays reg r (func_name f, args r)" using f(1) by (simp add: replays_def)
  ultimately show ?thesis by blast
qed

lemma replay_command_step:
  "(\<exists>e. replay_command reg self (asdict r) = (Inl e, self))
   \<or> (\<exists>c res. replay_command reg self (asdict r) = (Inr res, self\<lparr>invoked := invoked self @ [c]\<rparr>)
         \<and> replays reg r c)"
proof (cases "binds reg r")
  case True
  then show ?thesis using replay_command_binds by blast
next
  case False
  then have "\<exists>e. replay_command reg self (asdict r) = (Inl e, self)"
    by (auto simp: replay_command_saved binds_def call_handler_def split: option.splits sum.splits)
  then show ?thesis by blast
qed


lemma replay_abort:
  assumes "map_of reg (action r) = None"
  shows "\<exists>e n calls. n \<le> length pre
           \<and> replay_commands reg self (map asdict (pre @ r # post))
               = (Inl e, self\<lparr>invoked := invoked self @ calls\<rparr>)
           \<and> list_all2 (replays reg) (take n pre) calls"
proof (induction pre arbitrary: self)
  case Nil
  have "replay_commands reg self (map asdict ([] @ r # post))
          = (Inl (KeyError (JString (action r))), self\<lparr>invoked := invoked self @ []\<rparr>)"
    using assms by (simp add: replay_command_saved)
  moreover have "list_all2 (replays reg) (take 0 []) []" by simp
  ultimately show ?case by blast
next
  case (Cons p pre)
  from replay_command_step[of reg self p] show ?case
  proof
    assume "\<exists>e. replay_command reg self (asdict p) = (Inl e, self)"
    then obtain e where "replay_command reg self (asdict p) = (Inl e, self)" by blast
    then have "replay_commands reg self (map asdict ((p # pre) @ r # post))
          = (Inl e, self\<lparr>invoked := invoked self @ []\<rparr>)"
      by simp
    moreover have "list_all2 (replays reg) (take 0 (p # pre)) []" by simp
    ultimately show ?thesis by blast
  next
    assume "\<exists>c res. replay_command reg self (asdict p)
               = (Inr res, self\<lparr>invoked := invoked self @ [c]\<rparr>) \<and> replays reg p c"
    then obtain c res where
      c: "replay_command reg self (asdict p) = (Inr res, self\<lparr>invoked := invoked self @ [c]\<rparr>)"
         "replays reg p c"
      by blast
    let ?self' = "self\<lparr>invoked := invoked self @ [c]\<rparr>"
    from Cons.IH[of ?self'] obtain e n calls where
      n: "n \<le> length pre"
         "replay_commands reg ?self' (map asdict (pre @ r # post))
            = (Inl e, ?self'\<lparr>invoked := invoked ?self' @ calls\<rparr>)"
         "list_all2 (replays reg) (take n pre) calls"
      by blast
    have "replay_commands reg self (map asdict ((p # pre) @ r # post))
            = (Inl e, self\<lparr>invoked := invoked self @ (c # calls)\<rparr>)"
      using c(1) n(2) by simp
    moreover have "list_all2 (replays reg) (take (Suc n) (p # pre)) (c # calls)"
      using c(2) n(3) by simp
    moreover have "Suc n \<le> length (p # pre)" using n(1) by simp
    ultimately show ?thesis by blast
  qed
qed

lemma replay_abort_exact:
  assumes "map_of reg (action r) = None" "\<forall>p\<in>set pre. binds reg p"
  shows "\<exists>calls. replay_commands reg self (map asdict (pre @ r # post))
               = (Inl (KeyError (JString (action r))), self\<lparr>invoked := invoked self @ calls\<rparr>)
           \<and> list_all2 (replays reg) pre calls"
  using assms(2)
proof (induction pre arbitrary: self)
  case Nil
  have "replay_commands reg self (map asdict ([] @ r # post))
          = (Inl (KeyError (JString (action r))), self\<lparr>invoked := invoked self @ []\<rparr>)"
    using assms(1) by (simp add: replay_command_saved)
  then show ?case by auto
next
  case (Cons p pre)
  then have "binds reg p" by simp
  then obtain c res where
    c: "replay_command reg self (asdict p) = (Inr res, self\<lparr>invoked := invoked self @ [c]\<rparr>)"
       "replays reg p c"
    using replay_command_binds by blast
  let ?self' = "self\<lparr>invoked := invoked self @ [c]\<rparr>"
  from Cons obtain calls where
    calls: "replay_commands reg ?self' (map asdict (pre @ r # post))
             = (Inl (KeyError (JString (action r))), ?self'\<lparr>invoked := invoked ?self' @ calls\<rparr>)"
           "list_all2 (replays reg) pre calls"
    by (metis list.set_intros(2))
  have "replay_commands reg self (map asdict ((p # pre) @ r # post))
          = (Inl (KeyError (JString (action r))), self\<lparr>invoked := invoked self @ (c # calls)\<rparr>)"
    using c(1) calls(1) by simp
  moreover have "list_all2 (replays reg) (p # pre) (c # calls)" using c(2) calls(2) by simp
  ultimately show ?case by blast
qed

lemma load_saved:
  "load_and_replay_history (save_history w self filename) self' filename =
     replay_commands (dicts w (action_registry self')) self' (map asdict (history self))"
  by (simp add: load_and_replay_history_def save_history_def)

lemmas replay_eval = load_and_replay_history_def save_history_def asdict_def
  replay_command_def call_handler_def call_def add_to_history_def init_def
  voice_module_def register_action_def module_action_registry_def empty_world_def
  turn_on_light_def play_music_def make_rectangle_def rectangle_pattern_def





text \<open>
  C9. Replay has one policy for a record whose action is no key of the registry: it
  aborts. If the saved history holds such a record at position \<open>i\<close>, replay ends with
  an exception, and the handler bodies that ran are those of some first \<open>n \<le> i\<close>
  records, so none at or after position \<open>i\<close>. When all the records before position \<open>i\<close>
  are registered and bind, the exception is the \<open>KeyError\<close> of the unknown action and
  the bodies that ran are exactly those of the \<open>i\<close> records before it. Replay is a
  function of the file, the registry and the instance, so every run does the same.
\<close>

theorem replay_aborts_at_unknown_action:
  assumes "i < length (history self)"
    and "map_of (dicts w (action_registry self)) (action (history self ! i)) = None"
  shows "(\<exists>e n calls. n \<le> i
            \<and> load_and_replay_history (save_history w self filename) self filename
                = (Inl e, self\<lparr>invoked := invoked self @ calls\<rparr>)
            \<and> list_all2 (replays (dicts w (action_registry self))) (take n (history self)) calls)
       \<and> ((\<forall>m<i. binds (dicts w (action_registry self)) (history self ! m)) \<longrightarrow>
            (\<exists>calls. load_and_replay_history (save_history w self filename) self filename
                = (Inl (KeyError (JString (action (history self ! i)))),
                   self\<lparr>invoked := invoked self @ calls\<rparr>)
              \<and> list_all2 (replays (dicts w (action_registry self))) (take i (history self)) calls))"
proof
  let ?reg = "dicts w (action_registry self)"
  let ?pre = "take i (history self)"
  let ?r = "history self ! i"
  let ?post = "drop (Suc i) (history self)"
  have split: "history self = ?pre @ ?r # ?post"
    using assms(1) by (rule id_take_nth_drop)
  have len: "length ?pre = i" using assms(1) by simp
  from replay_abort[OF assms(2), of ?pre self ?post] obtain e n calls where
    n: "n \<le> length ?pre"
       "replay_commands ?reg self (map asdict (?pre @ ?r # ?post))
          = (Inl e, self\<lparr>invoked := invoked self @ calls\<rparr>)"
       "list_all2 (replays ?reg) (take n ?pre) calls"
    by blast
  have "take n ?pre = take n (history self)" using n(1) len by (simp add: min_def)
  then show "\<exists>e n calls. n \<le> i
            \<and> load_and_replay_history (save_history w self filename) self filename
                = (Inl e, self\<lparr>invoked := invoked self @ calls\<rparr>)
            \<and> list_all2 (replays ?reg) (take n (history self)) calls"
    using n len split by (metis load_saved)
  show "(\<forall>m<i. binds ?reg (history self ! m)) \<longrightarrow>
            (\<exists>calls. load_and_replay_history (save_history w self filename) self filename
                = (Inl (KeyError (JString (action ?r))), self\<lparr>invoked := invoked self @ calls\<rparr>)
              \<and> list_all2 (replays ?reg) ?pre calls)"
  proof
    assume ok: "\<forall>m<i. binds ?reg (history self ! m)"
    have "\<forall>p\<in>set ?pre. binds ?reg p"
    proof
      fix p assume "p \<in> set ?pre"
      then obtain m where "m < i" "p = history self ! m"
        using assms(1) by (auto simp: in_set_conv_nth)
      then show "binds ?reg p" using ok by simp
    qed
    from replay_abort_exact[OF assms(2) this, of self ?post] obtain calls where
      "replay_commands ?reg self (map asdict (?pre @ ?r # ?post))
         = (Inl (KeyError (JString (action ?r))), self\<lparr>invoked := invoked self @ calls\<rparr>)"
      "list_all2 (replays ?reg) ?pre calls"
      by blast
    then show "\<exists>calls. load_and_replay_history (save_history w self filename) self filename
                = (Inl (KeyError (JString (action ?r))), self\<lparr>invoked := invoked self @ calls\<rparr>)
              \<and> list_all2 (replays ?reg) ?pre calls"
      using split by (metis load_saved)
  qed
qed

theorem replay_aborts_at_unknown_action_witness:
  "(1::nat) < length (history stale)
   \<and> map_of (dicts (voice_module (files empty_world)) (action_registry stale))
        (action (history stale ! 1)) = None
   \<and> binds (dicts (voice_module (files empty_world)) (action_registry stale)) (history stale ! 0)
   \<and> (\<exists>calls. load_and_replay_history
                 (save_history (voice_module (files empty_world)) stale ''command_history.json'')
                 stale ''command_history.json''
               = (Inl (KeyError (JString ''dance'')), stale\<lparr>invoked := invoked stale @ calls\<rparr>)
             \<and> length calls = 1)"
proof -
  let ?w = "voice_module (files empty_world)"
  have len: "1 < length (history stale)" by (simp add: stale_def add_to_history_def init_def)
  have unknown: "map_of (dicts ?w (action_registry stale)) (action (history stale ! 1)) = None"
    by (simp add: stale_def replay_eval)
  have b0: "binds (dicts ?w (action_registry stale)) (history stale ! 0)"
    by (simp add: stale_def binds_def replay_eval)
  then have ok: "\<forall>m<1. binds (dicts ?w (action_registry stale)) (history stale ! m)" by simp
  have act: "action (history stale ! 1) = ''dance''"
    by (simp add: stale_def add_to_history_def init_def)
  from replay_aborts_at_unknown_action[OF len unknown, of "''command_history.json''"] ok
  obtain calls where
    "load_and_replay_history (save_history ?w stale ''command_history.json'') stale
       ''command_history.json''
     = (Inl (KeyError (JString (action (history stale ! 1)))),
        stale\<lparr>invoked := invoked stale @ calls\<rparr>)"
    "list_all2 (replays (dicts ?w (action_registry stale))) (take 1 (history stale)) calls"
    by blast
  moreover from this(2) have "length calls = 1"
    using len by (auto dest!: list_all2_lengthD)
  ultimately show ?thesis using len unknown b0 act by auto
qed

end
